theory Spec2Isabelle
  imports Complex_Main
begin

section \<open>The Bayesian bandit simulation of bandit.py\<close>

text \<open>
  The program draws hidden success probabilities for a number of Bernoulli bandits, then
  runs Thompson sampling: every round it samples each bandit's Beta posterior, selects the
  bandit with the highest sample, observes a reward and updates the statistics.

  Conventions of the embedding.
  \<^item> Python and numpy integers are \<open>int\<close>. The counters are bounded by the number of
    rounds, which is the length of an array held in memory, so the 64-bit range of numpy's
    integers is never left.
  \<^item> numpy's float64 values are idealised as \<open>real\<close>.
  \<^item> numpy's global random generator is an explicit state of type \<open>'g\<close>, threaded through
    every call that draws from it. The three library functions the program calls are the
    fields of a record, a parameter of the model; what numpy documents of them is the
    predicate \<open>np_random_ok\<close>.
  \<^item> An exception is a value \<open>Inl e\<close> of a sum type; every indexing of an array is checked
    and raises \<open>IndexError\<close> out of range, as numpy does.
  \<^item> Printing and plotting are left out: the model returns the two statistics arrays.
\<close>

datatype error = ValueError | IndexError

subsection \<open>The numpy functions the program calls\<close>

record 'g np_random =
  random_sample :: "nat \<Rightarrow> 'g \<Rightarrow> real list \<times> 'g"
  binomial_draw :: "int \<Rightarrow> real \<Rightarrow> 'g \<Rightarrow> int \<times> 'g"
  beta_draw :: "real \<Rightarrow> real \<Rightarrow> 'g \<Rightarrow> real \<times> 'g"

text \<open>
  \<open>np.random.random_sample(size)\<close> returns \<open>size\<close> floats of the half-open interval
  \<open>[0, 1)\<close>.
\<close>

definition np_random_ok :: "'g np_random \<Rightarrow> bool" where
  "np_random_ok R =
     (\<forall>n g. length (fst (random_sample R n g)) = n \<and>
            (\<forall>p \<in> set (fst (random_sample R n g)). 0 \<le> p \<and> p < 1))"

text \<open>\<open>np.amax\<close> of a one-dimensional array; it raises \<open>ValueError\<close> on an empty one.\<close>

definition amax :: "real list \<Rightarrow> error + real" where
  "amax xs = (case xs of [] \<Rightarrow> Inl ValueError | x # r \<Rightarrow> Inr (fold max r x))"

text \<open>
  \<open>ndarray.argmax\<close> of a one-dimensional array: a scan from the left that keeps the
  running maximum \<open>mp\<close> and its index \<open>mi\<close>, and replaces them only by a strictly greater
  element. It raises \<open>ValueError\<close> on an empty array.
\<close>

fun argmax_scan :: "real list \<Rightarrow> nat \<Rightarrow> real \<Rightarrow> nat \<Rightarrow> nat" where
  "argmax_scan [] i mp mi = mi"
| "argmax_scan (x # xs) i mp mi =
     (if mp < x then argmax_scan xs (Suc i) x i else argmax_scan xs (Suc i) mp mi)"

definition argmax :: "real list \<Rightarrow> error + nat" where
  "argmax xs = (case xs of [] \<Rightarrow> Inl ValueError | x # r \<Rightarrow> Inr (argmax_scan r 1 x 0))"

subsection \<open>class Bandits\<close>

record Bandits =
  bandits :: "real list"
  max_prob :: real

text \<open>\<open>Bandits.__init__(self, size)\<close>; the argument \<open>size\<close> is \<open>size_arg\<close> here.\<close>

definition Bandits_init :: "'g np_random \<Rightarrow> int \<Rightarrow> 'g \<Rightarrow> error + (Bandits \<times> 'g)" where
  "Bandits_init R size_arg g =
     (if size_arg < 2 then Inl ValueError
      else (case random_sample R (nat size_arg) g of
              (bs, g') \<Rightarrow>
                (case amax bs of
                   Inl e \<Rightarrow> Inl e
                 | Inr m \<Rightarrow> Inr (\<lparr>bandits = bs, max_prob = m\<rparr>, g'))))"

text \<open>\<open>Bandits.select(self, number)\<close>: whether the selected bandit produces a reward.\<close>

definition select :: "'g np_random \<Rightarrow> Bandits \<Rightarrow> int \<Rightarrow> 'g \<Rightarrow> bool \<times> 'g" where
  "select R self number g =
     (if number < 0 \<or> int (length (bandits self)) \<le> number then (False, g)
      else (case binomial_draw R 1 (bandits self ! nat number) g of
              (r, g') \<Rightarrow> (r = 1, g')))"

text \<open>
  \<open>Bandits.regret(self, number)\<close>. The guard lets \<open>number = self.bandits.size\<close> through
  to the indexing \<open>self.bandits[number]\<close>, which raises \<open>IndexError\<close>.
\<close>

definition regret :: "Bandits \<Rightarrow> int \<Rightarrow> error + real" where
  "regret self number =
     (if number < 0 \<or> int (length (bandits self)) < number then Inr (max_prob self)
      else if number < int (length (bandits self))
           then Inr (max_prob self - bandits self ! nat number)
           else Inl IndexError)"

subsection \<open>Sampling the posteriors\<close>

record BanditStat =
  wins :: int
  losses :: int

text \<open>\<open>draw_bandit_distribution(stats)\<close>, for one bandit.\<close>

definition draw_bandit_distribution :: "'g np_random \<Rightarrow> BanditStat \<Rightarrow> 'g \<Rightarrow> real \<times> 'g" where
  "draw_bandit_distribution R stats g =
     beta_draw R (of_int (wins stats + 1)) (of_int (losses stats + 1)) g"

text \<open>
  The function after \<open>np.vectorize\<close> with \<open>otypes\<close> given: one call per element, in
  the order of the array.
\<close>

fun draw_bandit_distribution_vec ::
  "'g np_random \<Rightarrow> BanditStat list \<Rightarrow> 'g \<Rightarrow> real list \<times> 'g" where
  "draw_bandit_distribution_vec R [] g = ([], g)"
| "draw_bandit_distribution_vec R (s # ss) g =
     (case draw_bandit_distribution R s g of
        (x, g1) \<Rightarrow>
          (case draw_bandit_distribution_vec R ss g1 of
             (xs, g2) \<Rightarrow> (x # xs, g2)))"

subsection \<open>The simulation loop\<close>

record OverallStat =
  o_bandit :: int
  o_wins :: int
  o_losses :: int
  o_regret :: real

record 'g sim_state =
  banditStats :: "BanditStat list"
  overallStats :: "OverallStat list"
  rng :: 'g

definition zero_bandit_stat :: BanditStat where
  "zero_bandit_stat = \<lparr>wins = 0, losses = 0\<rparr>"

definition zero_overall_stat :: OverallStat where
  "zero_overall_stat = \<lparr>o_bandit = 0, o_wins = 0, o_losses = 0, o_regret = 0\<rparr>"

text \<open>The statement \<open>overallStats[iteration] = overallStats[iteration - 1].copy()\<close>.\<close>

definition copy_statistics :: "nat \<Rightarrow> OverallStat list \<Rightarrow> error + OverallStat list" where
  "copy_statistics iteration os =
     (if iteration \<noteq> 0 then
        (if iteration < length os then Inr (os[iteration := os ! (iteration - 1)])
         else Inl IndexError)
      else Inr os)"

text \<open>
  One pass through the body of the \<open>for\<close> loop. The selected bandit is an index of numpy,
  never negative; \<open>select\<close> and \<open>regret\<close> receive it as an integer.
\<close>

definition loop_body ::
  "'g np_random \<Rightarrow> Bandits \<Rightarrow> nat \<Rightarrow> 'g sim_state \<Rightarrow> error + 'g sim_state" where
  "loop_body R bs iteration s =
     (case copy_statistics iteration (overallStats s) of
        Inl e \<Rightarrow> Inl e
      | Inr os0 \<Rightarrow>
     (case draw_bandit_distribution_vec R (banditStats s) (rng s) of
        (current_draws, g1) \<Rightarrow>
     (case argmax current_draws of
        Inl e \<Rightarrow> Inl e
      | Inr selected_bandit \<Rightarrow>
     if length os0 \<le> iteration then Inl IndexError
     else
       let os1 = os0[iteration := (os0 ! iteration)\<lparr>o_bandit := int selected_bandit\<rparr>] in
     (case select R bs (int selected_bandit) g1 of
        (rewarded, g2) \<Rightarrow>
     if length (banditStats s) \<le> selected_bandit then Inl IndexError
     else
       let b = banditStats s ! selected_bandit;
           cur = os1 ! iteration;
           bst = (if rewarded
                  then (banditStats s)[selected_bandit := b\<lparr>wins := wins b + 1\<rparr>]
                  else (banditStats s)[selected_bandit := b\<lparr>losses := losses b + 1\<rparr>]);
           os2 = (if rewarded
                  then os1[iteration := cur\<lparr>o_wins := o_wins cur + 1\<rparr>]
                  else os1[iteration := cur\<lparr>o_losses := o_losses cur + 1\<rparr>])
       in
     (case regret bs (int selected_bandit) of
        Inl e \<Rightarrow> Inl e
      | Inr r \<Rightarrow>
          Inr \<lparr>banditStats = bst,
               overallStats = os2[iteration := (os2 ! iteration)\<lparr>o_regret := o_regret (os2 ! iteration) + r\<rparr>],
               rng = g2\<rparr>)))))"

text \<open>\<open>for iteration in range(trial_count)\<close>, over the list of the iterations to run.\<close>

fun for_loop ::
  "'g np_random \<Rightarrow> Bandits \<Rightarrow> nat list \<Rightarrow> 'g sim_state \<Rightarrow> error + 'g sim_state" where
  "for_loop R bs [] s = Inr s"
| "for_loop R bs (iteration # rest) s =
     (case loop_body R bs iteration s of
        Inl e \<Rightarrow> Inl e
      | Inr s' \<Rightarrow> for_loop R bs rest s')"

text \<open>
  The script's \<open>else\<close> branch, from the two parsed arguments on. It returns the bandits
  and the final state, whose \<open>overallStats\<close> is what the plots are drawn from.
\<close>

definition coerce_trial_count :: "int \<Rightarrow> int" where
  "coerce_trial_count trial_count = (if trial_count < 1 then 1 else trial_count)"

definition initial_state :: "int \<Rightarrow> int \<Rightarrow> 'g \<Rightarrow> 'g sim_state" where
  "initial_state bandit_count trial_count g =
     \<lparr>banditStats = replicate (nat bandit_count) zero_bandit_stat,
      overallStats = replicate (nat trial_count) zero_overall_stat,
      rng = g\<rparr>"

definition run ::
  "'g np_random \<Rightarrow> int \<Rightarrow> int \<Rightarrow> 'g \<Rightarrow> error + (Bandits \<times> 'g sim_state)" where
  "run R bandit_count trial_count g =
     (let trial_count = coerce_trial_count trial_count in
      case Bandits_init R bandit_count g of
        Inl e \<Rightarrow> Inl e
      | Inr (bs, g1) \<Rightarrow>
          (case for_loop R bs [0..<nat trial_count]
                  (initial_state bandit_count trial_count g1) of
             Inl e \<Rightarrow> Inl e
           | Inr s \<Rightarrow> Inr (bs, s)))"

subsection \<open>The invariant of the simulation loop\<close>

text \<open>
  What holds of the state when \<open>k\<close> iterations have run: there is one pair of counters
  per bandit; the records of the rounds still to come are as \<open>np.zeros\<close> left them; in
  the record of every round run so far the wins and losses add up to the number of rounds,
  the chosen bandit is one of the bandits, and the regret is no less than in the record
  before; and the counters of every bandit add up to the number of rounds that chose it.
\<close>

definition loop_inv :: "Bandits \<Rightarrow> nat \<Rightarrow> 'g sim_state \<Rightarrow> bool" where
  "loop_inv bs k s =
     (length (banditStats s) = length (bandits bs) \<and>
      (\<forall>i < length (overallStats s). k \<le> i \<longrightarrow> overallStats s ! i = zero_overall_stat) \<and>
      (\<forall>i < k. o_wins (overallStats s ! i) + o_losses (overallStats s ! i) = int i + 1) \<and>
      (\<forall>i < k. 0 \<le> o_bandit (overallStats s ! i) \<and>
                o_bandit (overallStats s ! i) < int (length (bandits bs))) \<and>
      (\<forall>i < k. 0 < i \<longrightarrow> o_regret (overallStats s ! (i - 1)) \<le> o_regret (overallStats s ! i)) \<and>
      (\<forall>a < length (bandits bs).
          wins (banditStats s ! a) + losses (banditStats s ! a) =
          int (length (filter (\<lambda>r. o_bandit r = int a) (take k (overallStats s))))))"

subsection \<open>A deterministic generator to run the model on\<close>

text \<open>
  A stand-in for numpy's generator whose state is a counter: every draw is computed from
  the counter and advances it. It meets \<open>np_random_ok\<close>, and serves to evaluate the model
  on concrete inputs.
\<close>

definition counter_random :: "nat np_random" where
  "counter_random =
     \<lparr>random_sample = (\<lambda>n g. (map (\<lambda>i. 1 / real (g + i + 2)) [0..<n], g + n)),
      binomial_draw = (\<lambda>n p g. (if real (g mod 5) / 5 < p then 1 else 0, Suc g)),
      beta_draw = (\<lambda>a b g. ((a + real (g mod 4)) / (a + b + 4), Suc g))\<rparr>"

section \<open>Properties\<close>

subsection \<open>The model on a concrete input\<close>

lemma counter_random_ok: "np_random_ok counter_random"
  by (auto simp: np_random_ok_def counter_random_def)

lemma run_counter_example:
  "run counter_random 2 3 1 =
     Inr (\<lparr>bandits = [1 / 3, 1 / 4], max_prob = 1 / 3\<rparr>,
          \<lparr>banditStats = [\<lparr>wins = 2, losses = 0\<rparr>, \<lparr>wins = 0, losses = 1\<rparr>],
           overallStats =
             [\<lparr>o_bandit = 0, o_wins = 1, o_losses = 0, o_regret = 0\<rparr>,
              \<lparr>o_bandit = 1, o_wins = 1, o_losses = 1, o_regret = 1 / 12\<rparr>,
              \<lparr>o_bandit = 0, o_wins = 2, o_losses = 1, o_regret = 1 / 12\<rparr>],
           rng = 12\<rparr>)"
  by code_simp

subsection \<open>argmax\<close>

lemma argmax_scan_spec:
  assumes "i = length ys" "mi < i" "ys ! mi = mp" "\<forall>j<i. ys ! j \<le> mp" "\<forall>j<mi. ys ! j < mp"
  shows "argmax_scan xs i mp mi < i + length xs \<and>
         (\<forall>j < i + length xs. (ys @ xs) ! j \<le> (ys @ xs) ! argmax_scan xs i mp mi) \<and>
         (\<forall>j < argmax_scan xs i mp mi. (ys @ xs) ! j < (ys @ xs) ! argmax_scan xs i mp mi)"
  using assms
proof (induction xs arbitrary: ys i mp mi)
  case Nil
  then show ?case by simp
next
  case (Cons x xs)
  show ?case
  proof (cases "mp < x")
    case True
    have "argmax_scan xs (Suc i) x i < Suc i + length xs \<and>
         (\<forall>j < Suc i + length xs. ((ys @ [x]) @ xs) ! j \<le> ((ys @ [x]) @ xs) ! argmax_scan xs (Suc i) x i) \<and>
         (\<forall>j < argmax_scan xs (Suc i) x i. ((ys @ [x]) @ xs) ! j < ((ys @ [x]) @ xs) ! argmax_scan xs (Suc i) x i)"
    proof (rule Cons.IH)
      show "Suc i = length (ys @ [x])" using Cons.prems by simp
      show "i < Suc i" by simp
      show "(ys @ [x]) ! i = x" using Cons.prems by simp
      show "\<forall>j<Suc i. (ys @ [x]) ! j \<le> x"
        using Cons.prems True by (auto simp: nth_append less_Suc_eq intro: less_imp_le order_trans)
      show "\<forall>j<i. (ys @ [x]) ! j < x"
        using Cons.prems True by (auto simp: nth_append intro: le_less_trans)
    qed
    with True show ?thesis by simp
  next
    case False
    have "argmax_scan xs (Suc i) mp mi < Suc i + length xs \<and>
         (\<forall>j < Suc i + length xs. ((ys @ [x]) @ xs) ! j \<le> ((ys @ [x]) @ xs) ! argmax_scan xs (Suc i) mp mi) \<and>
         (\<forall>j < argmax_scan xs (Suc i) mp mi. ((ys @ [x]) @ xs) ! j < ((ys @ [x]) @ xs) ! argmax_scan xs (Suc i) mp mi)"
    proof (rule Cons.IH)
      show "Suc i = length (ys @ [x])" using Cons.prems by simp
      show "mi < Suc i" using Cons.prems by simp
      show "(ys @ [x]) ! mi = mp" using Cons.prems by (simp add: nth_append)
      show "\<forall>j<Suc i. (ys @ [x]) ! j \<le> mp"
        using Cons.prems False by (auto simp: nth_append less_Suc_eq)
      show "\<forall>j<mi. (ys @ [x]) ! j < mp"
        using Cons.prems by (auto simp: nth_append)
    qed
    with False show ?thesis by simp
  qed
qed

lemma argmax_spec:
  assumes "xs \<noteq> []"
  obtains i where "argmax xs = Inr i" "i < length xs" "\<forall>j < length xs. xs ! j \<le> xs ! i"
    "\<forall>j < i. xs ! j < xs ! i"
proof -
  from assms obtain x r where xs: "xs = x # r" by (cases xs) auto
  have "argmax_scan r 1 x 0 < 1 + length r \<and>
         (\<forall>j < 1 + length r. ([x] @ r) ! j \<le> ([x] @ r) ! argmax_scan r 1 x 0) \<and>
         (\<forall>j < argmax_scan r 1 x 0. ([x] @ r) ! j < ([x] @ r) ! argmax_scan r 1 x 0)"
    by (rule argmax_scan_spec) simp_all
  then show ?thesis
    using that [of "argmax_scan r 1 x 0"] by (simp add: xs argmax_def)
qed

lemma nth_eq_Max:
  assumes "i < length xs" "\<forall>j < length xs. xs ! j \<le> (xs ! i :: real)"
  shows "xs ! i = Max (set xs)"
proof (rule sym, rule Max_eqI)
  show "finite (set xs)" by simp
  show "xs ! i \<in> set xs" using assms(1) by simp
  fix y assume "y \<in> set xs"
  then obtain j where "j < length xs" "xs ! j = y" by (auto simp: in_set_conv_nth)
  with assms(2) show "y \<le> xs ! i" by auto
qed

text \<open>
  C3. On a non-empty array \<open>argmax\<close> returns an index of the array that holds the
  maximum, and every element before that index is strictly smaller: among several maxima
  the lowest index is returned. Being a function of the array, it returns the same index
  for the same samples; on \<open>[0.5, 0.9, 0.9]\<close> it returns 1.
\<close>

theorem argmax_first_maximum:
  "(xs \<noteq> [] \<longrightarrow>
      (\<exists>i. argmax xs = Inr i \<and> i < length xs \<and> xs ! i = Max (set xs) \<and>
           (\<forall>j < i. xs ! j < xs ! i))) \<and>
   argmax [1 / 2, 9 / 10, 9 / 10] = Inr 1"
proof
  show "xs \<noteq> [] \<longrightarrow>
      (\<exists>i. argmax xs = Inr i \<and> i < length xs \<and> xs ! i = Max (set xs) \<and>
           (\<forall>j < i. xs ! j < xs ! i))"
  proof
    assume "xs \<noteq> []"
    then obtain i where i: "argmax xs = Inr i" "i < length xs"
      "\<forall>j < length xs. xs ! j \<le> xs ! i" "\<forall>j < i. xs ! j < xs ! i"
      by (rule argmax_spec)
    from i(2,3) have "xs ! i = Max (set xs)" by (rule nth_eq_Max)
    with i show "\<exists>i. argmax xs = Inr i \<and> i < length xs \<and> xs ! i = Max (set xs) \<and>
           (\<forall>j < i. xs ! j < xs ! i)" by blast
  qed
  show "argmax [1 / 2, 9 / 10, 9 / 10] = Inr 1" by (simp add: argmax_def)
qed

theorem argmax_first_maximum_witness:
  "[3 / 10, 7 / 10, 1 / 5, 7 / 10] \<noteq> ([] :: real list) \<and>
   argmax [3 / 10, 7 / 10, 1 / 5, 7 / 10] = Inr 1 \<and>
   (\<exists>i. argmax [3 / 10, 7 / 10, 1 / 5, 7 / 10] = Inr i \<and> i < length [3 / 10, 7 / 10, 1 / 5, 7 / 10 :: real] \<and>
        [3 / 10, 7 / 10, 1 / 5, 7 / 10] ! i = Max (set [3 / 10, 7 / 10, 1 / 5, 7 / 10 :: real]) \<and>
        (\<forall>j < i. [3 / 10, 7 / 10, 1 / 5, 7 / 10] ! j < [3 / 10, 7 / 10, 1 / 5, 7 / 10 :: real] ! i))"
proof -
  have ne: "[3 / 10, 7 / 10, 1 / 5, 7 / 10] \<noteq> ([] :: real list)" by simp
  have ev: "argmax [3 / 10, 7 / 10, 1 / 5, 7 / 10] = Inr 1" by (simp add: argmax_def)
  from argmax_first_maximum [of "[3 / 10, 7 / 10, 1 / 5, 7 / 10]"] ne ev
  show ?thesis by blast
qed

subsection \<open>class Bandits\<close>

lemma Bandits_init_counter_example:
  "Bandits_init counter_random 2 1 = Inr (\<lparr>bandits = [1 / 3, 1 / 4], max_prob = 1 / 3\<rparr>, 3)"
  by code_simp

lemma fold_max_eq_Max: "fold max r (x :: real) = Max (set (x # r))"
  by (rule Max.set_eq_fold [symmetric])

lemma Bandits_init_ok:
  assumes "np_random_ok R" "2 \<le> size_arg"
  obtains bs g' where "Bandits_init R size_arg g = Inr (bs, g')"
    "length (bandits bs) = nat size_arg"
    "\<forall>p \<in> set (bandits bs). 0 \<le> p \<and> p < 1"
    "max_prob bs = Max (set (bandits bs))"
proof -
  obtain xs g' where rs: "random_sample R (nat size_arg) g = (xs, g')" by (cases "random_sample R (nat size_arg) g")
  from assms(1) have len: "length (fst (random_sample R (nat size_arg) g)) = nat size_arg"
    and rng: "\<forall>p \<in> set (fst (random_sample R (nat size_arg) g)). 0 \<le> p \<and> p < 1"
    unfolding np_random_ok_def by blast+
  from len rs assms(2) obtain x r where xs: "xs = x # r" by (cases xs) auto
  have "Bandits_init R size_arg g = Inr (\<lparr>bandits = xs, max_prob = fold max r x\<rparr>, g')"
    using assms(2) rs xs by (simp add: Bandits_init_def amax_def)
  moreover have "fold max r x = Max (set xs)" unfolding xs by (rule fold_max_eq_Max)
  ultimately show ?thesis using that [of "\<lparr>bandits = xs, max_prob = fold max r x\<rparr>" g'] len rng rs
    by simp
qed

text \<open>
  C6. \<open>Bandits.__init__\<close> raises \<open>ValueError\<close> (the specification's
  \<open>ConfigurationError\<close>) for every size below 2, the negative ones included. For every
  size from 2 on, with a generator that meets \<open>np_random_ok\<close>, it succeeds: there are
  as many probabilities as the size says, each in \<open>[0, 1]\<close>, and \<open>max_prob\<close> is their
  maximum.
\<close>

theorem Bandits_init_cases:
  "(size_arg < 2 \<longrightarrow> Bandits_init R size_arg g = Inl ValueError) \<and>
   (np_random_ok R \<and> 2 \<le> size_arg \<longrightarrow>
      (\<exists>bs g'. Bandits_init R size_arg g = Inr (bs, g') \<and>
         int (length (bandits bs)) = size_arg \<and>
         (\<forall>p \<in> set (bandits bs). 0 \<le> p \<and> p \<le> 1) \<and>
         max_prob bs = Max (set (bandits bs))))"
proof (intro conjI impI)
  assume "size_arg < 2"
  then show "Bandits_init R size_arg g = Inl ValueError" by (simp add: Bandits_init_def)
next
  assume a: "np_random_ok R \<and> 2 \<le> size_arg"
  then obtain bs g' where b: "Bandits_init R size_arg g = Inr (bs, g')"
    "length (bandits bs) = nat size_arg"
    "\<forall>p \<in> set (bandits bs). 0 \<le> p \<and> p < 1"
    "max_prob bs = Max (set (bandits bs))"
    using Bandits_init_ok [of R size_arg g] by blast
  from b(2) a have "int (length (bandits bs)) = size_arg" by simp
  moreover from b(3) have "\<forall>p \<in> set (bandits bs). 0 \<le> p \<and> p \<le> 1" by auto
  ultimately show "\<exists>bs g'. Bandits_init R size_arg g = Inr (bs, g') \<and>
         int (length (bandits bs)) = size_arg \<and>
         (\<forall>p \<in> set (bandits bs). 0 \<le> p \<and> p \<le> 1) \<and>
         max_prob bs = Max (set (bandits bs))"
    using b(1,4) by blast
qed

theorem Bandits_init_cases_witness:
  "Bandits_init counter_random 1 1 = Inl ValueError \<and>
   Bandits_init counter_random 0 1 = Inl ValueError \<and>
   Bandits_init counter_random (- 3) 1 = Inl ValueError \<and>
   np_random_ok counter_random \<and> (2 :: int) \<le> 2 \<and>
   (\<exists>bs g'. Bandits_init counter_random 2 1 = Inr (bs, g') \<and>
         int (length (bandits bs)) = 2 \<and>
         (\<forall>p \<in> set (bandits bs). 0 \<le> p \<and> p \<le> 1) \<and>
         max_prob bs = Max (set (bandits bs))) \<and>
   Bandits_init counter_random 2 1 = Inr (\<lparr>bandits = [1 / 3, 1 / 4], max_prob = 1 / 3\<rparr>, 3)"
  using Bandits_init_cases [of 1 counter_random 1] Bandits_init_cases [of 0 counter_random 1]
    Bandits_init_cases [of "- 3" counter_random 1] Bandits_init_cases [of 2 counter_random 1]
    counter_random_ok Bandits_init_counter_example
  by simp

text \<open>
  C5. \<open>Bandits.select\<close> returns \<open>False\<close> for every number outside the range of the
  bandits, without raising and without drawing from the generator; for a number within
  the range it makes one draw of \<open>binomial(1, p)\<close> with the probability \<open>p\<close> of that
  bandit and returns whether it came out as 1.
\<close>

theorem select_cases:
  "(number < 0 \<or> int (length (bandits self)) \<le> number \<longrightarrow>
      select R self number g = (False, g)) \<and>
   (0 \<le> number \<and> number < int (length (bandits self)) \<longrightarrow>
      select R self number g =
        (fst (binomial_draw R 1 (bandits self ! nat number) g) = 1,
         snd (binomial_draw R 1 (bandits self ! nat number) g)))"
  by (auto simp: select_def split: prod.splits)

theorem select_cases_witness:
  "select counter_random \<lparr>bandits = [1 / 3, 1 / 4], max_prob = 1 / 3\<rparr> 2 7 = (False, 7) \<and>
   select counter_random \<lparr>bandits = [1 / 3, 1 / 4], max_prob = 1 / 3\<rparr> (- 1) 7 = (False, 7) \<and>
   select counter_random \<lparr>bandits = [1 / 3, 1 / 4], max_prob = 1 / 3\<rparr> 0 5 = (True, 6) \<and>
   select counter_random \<lparr>bandits = [1 / 3, 1 / 4], max_prob = 1 / 3\<rparr> 1 7 = (False, 8)"
  using select_cases [of 2 "\<lparr>bandits = [1 / 3, 1 / 4], max_prob = 1 / 3\<rparr>" counter_random 7]
    select_cases [of "- 1" "\<lparr>bandits = [1 / 3, 1 / 4], max_prob = 1 / 3\<rparr>" counter_random 7]
    select_cases [of 0 "\<lparr>bandits = [1 / 3, 1 / 4], max_prob = 1 / 3\<rparr>" counter_random 5]
    select_cases [of 1 "\<lparr>bandits = [1 / 3, 1 / 4], max_prob = 1 / 3\<rparr>" counter_random 7]
  by (simp add: counter_random_def)

lemma regret_cases:
  "regret self number =
     (if number < 0 \<or> int (length (bandits self)) < number then Inr (max_prob self)
      else if number = int (length (bandits self)) then Inl IndexError
      else Inr (max_prob self - bandits self ! nat number))"
  by (simp add: regret_def)

text \<open>
  C1. \<open>Bandits.regret\<close> at the number that equals the count of the bandits, which lies
  outside the range of the bandits: the guard \<open>number > self.bandits.size\<close> does not
  catch it, and the indexing raises \<open>IndexError\<close> where \<open>max_prob\<close> is expected. Here
  with two bandits and the number 2.
\<close>

theorem regret_at_size_raises:
  "regret \<lparr>bandits = [1 / 5, 4 / 5], max_prob = 4 / 5\<rparr> 2 = Inl IndexError"
  by (simp add: regret_def)

subsection \<open>Sampling the posteriors\<close>

lemma draw_vec_Cons:
  "draw_bandit_distribution_vec R (s # ss) g =
     (fst (draw_bandit_distribution R s g) #
        fst (draw_bandit_distribution_vec R ss (snd (draw_bandit_distribution R s g))),
      snd (draw_bandit_distribution_vec R ss (snd (draw_bandit_distribution R s g))))"
  by (simp split: prod.splits)

lemma length_draw_vec:
  "length (fst (draw_bandit_distribution_vec R stats g)) = length stats"
  by (induction stats arbitrary: g) (simp_all add: draw_vec_Cons del: draw_bandit_distribution_vec.simps(2))

lemma draw_vec_append:
  "draw_bandit_distribution_vec R (xs @ ys) g =
     (fst (draw_bandit_distribution_vec R xs g) @
        fst (draw_bandit_distribution_vec R ys (snd (draw_bandit_distribution_vec R xs g))),
      snd (draw_bandit_distribution_vec R ys (snd (draw_bandit_distribution_vec R xs g))))"
  by (induction xs arbitrary: g) (simp_all add: draw_vec_Cons del: draw_bandit_distribution_vec.simps(2))

lemma draw_vec_nth:
  assumes "a < length stats"
  shows "fst (draw_bandit_distribution_vec R stats g) ! a =
         fst (draw_bandit_distribution R (stats ! a)
                (snd (draw_bandit_distribution_vec R (take a stats) g)))"
proof -
  have "stats = take a stats @ stats ! a # drop (Suc a) stats"
    using assms by (simp add: id_take_nth_drop)
  then have "fst (draw_bandit_distribution_vec R stats g) ! a =
      fst (draw_bandit_distribution_vec R (take a stats @ stats ! a # drop (Suc a) stats) g) ! a"
    by simp
  also have "\<dots> = fst (draw_bandit_distribution R (stats ! a)
                (snd (draw_bandit_distribution_vec R (take a stats) g)))"
    using assms
    by (simp add: draw_vec_append draw_vec_Cons nth_append length_draw_vec
        del: draw_bandit_distribution_vec.simps(2))
  finally show ?thesis .
qed

subsection \<open>One pass through the loop\<close>

lemma loop_body_effect:
  assumes it: "iteration < length (overallStats s)"
      and ne: "banditStats s \<noteq> []"
      and len: "length (banditStats s) = length (bandits bs)"
  obtains sel rewarded g2 where
    "argmax (fst (draw_bandit_distribution_vec R (banditStats s) (rng s))) = Inr sel"
    "sel < length (banditStats s)"
    "select R bs (int sel) (snd (draw_bandit_distribution_vec R (banditStats s) (rng s))) =
       (rewarded, g2)"
    "loop_body R bs iteration s =
       Inr \<lparr>banditStats =
              (banditStats s)[sel := (if rewarded
                 then (banditStats s ! sel)\<lparr>wins := wins (banditStats s ! sel) + 1\<rparr>
                 else (banditStats s ! sel)\<lparr>losses := losses (banditStats s ! sel) + 1\<rparr>)],
            overallStats =
              (overallStats s)[iteration :=
                 (overallStats s ! (iteration - 1))
                   \<lparr>o_bandit := int sel,
                    o_wins := o_wins (overallStats s ! (iteration - 1)) + (if rewarded then 1 else 0),
                    o_losses := o_losses (overallStats s ! (iteration - 1)) + (if rewarded then 0 else 1),
                    o_regret := o_regret (overallStats s ! (iteration - 1)) +
                                (max_prob bs - bandits bs ! sel)\<rparr>],
            rng = g2\<rparr>"
proof -
  obtain draws g1 where d: "draw_bandit_distribution_vec R (banditStats s) (rng s) = (draws, g1)"
    by (cases "draw_bandit_distribution_vec R (banditStats s) (rng s)")
  have ld: "length draws = length (banditStats s)"
    using length_draw_vec [of R "banditStats s" "rng s"] d by simp
  with ne have "draws \<noteq> []" by auto
  then obtain sel where sel: "argmax draws = Inr sel" "sel < length draws"
    by (rule argmax_spec)
  obtain rewarded g2 where r: "select R bs (int sel) g1 = (rewarded, g2)"
    by (cases "select R bs (int sel) g1")
  have reg: "regret bs (int sel) = Inr (max_prob bs - bandits bs ! sel)"
    using sel(2) ld len by (simp add: regret_def)
  have "loop_body R bs iteration s =
       Inr \<lparr>banditStats =
              (banditStats s)[sel := (if rewarded
                 then (banditStats s ! sel)\<lparr>wins := wins (banditStats s ! sel) + 1\<rparr>
                 else (banditStats s ! sel)\<lparr>losses := losses (banditStats s ! sel) + 1\<rparr>)],
            overallStats =
              (overallStats s)[iteration :=
                 (overallStats s ! (iteration - 1))
                   \<lparr>o_bandit := int sel,
                    o_wins := o_wins (overallStats s ! (iteration - 1)) + (if rewarded then 1 else 0),
                    o_losses := o_losses (overallStats s ! (iteration - 1)) + (if rewarded then 0 else 1),
                    o_regret := o_regret (overallStats s ! (iteration - 1)) +
                                (max_prob bs - bandits bs ! sel)\<rparr>],
            rng = g2\<rparr>"
    using it sel ld d r reg
    by (cases "iteration = 0") (simp_all add: loop_body_def copy_statistics_def Let_def)
  then show ?thesis using that [of sel rewarded g2] sel ld d r by simp
qed

lemma for_loop_append:
  "for_loop R bs (xs @ ys) s =
     (case for_loop R bs xs s of Inl e \<Rightarrow> Inl e | Inr s' \<Rightarrow> for_loop R bs ys s')"
  by (induction xs arbitrary: s) (auto split: sum.splits)

lemma loop_inv_initial:
  assumes "length (bandits bs) = nat bandit_count"
  shows "loop_inv bs 0 (initial_state bandit_count trial_count g)"
  using assms by (simp add: loop_inv_def initial_state_def zero_bandit_stat_def)

lemma loop_body_inv:
  assumes inv: "loop_inv bs k s"
      and k: "k < length (overallStats s)"
      and ne: "bandits bs \<noteq> []"
      and mx: "\<forall>p \<in> set (bandits bs). p \<le> max_prob bs"
  obtains s' where "loop_body R bs k s = Inr s'" "loop_inv bs (Suc k) s'"
    "length (overallStats s') = length (overallStats s)"
proof -
  let ?os = "overallStats s" and ?bst = "banditStats s"
  from inv have len: "length ?bst = length (bandits bs)"
    and zero: "\<forall>i < length ?os. k \<le> i \<longrightarrow> ?os ! i = zero_overall_stat"
    and sums: "\<forall>i < k. o_wins (?os ! i) + o_losses (?os ! i) = int i + 1"
    and arms: "\<forall>i < k. 0 \<le> o_bandit (?os ! i) \<and> o_bandit (?os ! i) < int (length (bandits bs))"
    and mono: "\<forall>i < k. 0 < i \<longrightarrow> o_regret (?os ! (i - 1)) \<le> o_regret (?os ! i)"
    and cnt: "\<forall>a < length (bandits bs). wins (?bst ! a) + losses (?bst ! a) =
          int (length (filter (\<lambda>r. o_bandit r = int a) (take k ?os)))"
    unfolding loop_inv_def by blast+
  from len ne have bne: "?bst \<noteq> []" by auto
  define prev where "prev = ?os ! (k - 1)"
  obtain sel rewarded g2 where sel: "sel < length ?bst"
    and body: "loop_body R bs k s =
       Inr \<lparr>banditStats =
              ?bst[sel := (if rewarded
                 then (?bst ! sel)\<lparr>wins := wins (?bst ! sel) + 1\<rparr>
                 else (?bst ! sel)\<lparr>losses := losses (?bst ! sel) + 1\<rparr>)],
            overallStats =
              ?os[k := prev
                   \<lparr>o_bandit := int sel,
                    o_wins := o_wins prev + (if rewarded then 1 else 0),
                    o_losses := o_losses prev + (if rewarded then 0 else 1),
                    o_regret := o_regret prev + (max_prob bs - bandits bs ! sel)\<rparr>],
            rng = g2\<rparr>"
    unfolding prev_def using loop_body_effect [OF k bne len, of R] by metis
  define new where "new = prev
                   \<lparr>o_bandit := int sel,
                    o_wins := o_wins prev + (if rewarded then 1 else 0),
                    o_losses := o_losses prev + (if rewarded then 0 else 1),
                    o_regret := o_regret prev + (max_prob bs - bandits bs ! sel)\<rparr>"
  define bst' where "bst' = ?bst[sel := (if rewarded
                 then (?bst ! sel)\<lparr>wins := wins (?bst ! sel) + 1\<rparr>
                 else (?bst ! sel)\<lparr>losses := losses (?bst ! sel) + 1\<rparr>)]"
  define s' where "s' = \<lparr>banditStats = bst', overallStats = ?os[k := new], rng = g2\<rparr>"
  have body': "loop_body R bs k s = Inr s'"
    using body by (simp add: s'_def new_def bst'_def)
  have prev_sum: "o_wins prev + o_losses prev = int k"
  proof (cases "k = 0")
    case True
    with zero k have "prev = zero_overall_stat" by (simp add: prev_def)
    with True show ?thesis by (simp add: zero_overall_stat_def)
  next
    case False
    with sums have "o_wins (?os ! (k - 1)) + o_losses (?os ! (k - 1)) = int (k - 1) + 1" by simp
    with False show ?thesis by (simp add: prev_def)
  qed
  have new_sum: "o_wins new + o_losses new = int k + 1"
    using prev_sum by (simp add: new_def)
  have new_arm: "o_bandit new = int sel" by (simp add: new_def)
  have "bandits bs ! sel \<in> set (bandits bs)" using sel len by simp
  with mx have "bandits bs ! sel \<le> max_prob bs" by blast
  then have new_reg: "o_regret prev \<le> o_regret new" by (simp add: new_def)
  have nth_old: "\<And>i. i < k \<Longrightarrow> ?os[k := new] ! i = ?os ! i" by simp
  have nth_new: "?os[k := new] ! k = new" using k by simp
  have c1: "length (banditStats s') = length (bandits bs)"
    using len by (simp add: s'_def bst'_def)
  have c2: "\<forall>i < length (overallStats s'). Suc k \<le> i \<longrightarrow> overallStats s' ! i = zero_overall_stat"
    using zero by (simp add: s'_def)
  have c3: "\<forall>i < Suc k. o_wins (overallStats s' ! i) + o_losses (overallStats s' ! i) = int i + 1"
    using sums new_sum nth_new by (auto simp: s'_def less_Suc_eq)
  have c4: "\<forall>i < Suc k. 0 \<le> o_bandit (overallStats s' ! i) \<and>
                o_bandit (overallStats s' ! i) < int (length (bandits bs))"
    using arms new_arm nth_new sel len by (auto simp: s'_def less_Suc_eq)
  have c5: "\<forall>i < Suc k. 0 < i \<longrightarrow>
              o_regret (overallStats s' ! (i - 1)) \<le> o_regret (overallStats s' ! i)"
  proof (intro allI impI)
    fix i assume i: "i < Suc k" "0 < i"
    show "o_regret (overallStats s' ! (i - 1)) \<le> o_regret (overallStats s' ! i)"
    proof (cases "i = k")
      case True
      with i have "?os[k := new] ! (i - 1) = prev" by (simp add: prev_def)
      with True nth_new new_reg show ?thesis by (simp add: s'_def)
    next
      case False
      with i have "i < k" by simp
      with i mono show ?thesis by (simp add: s'_def)
    qed
  qed
  have tk: "take (Suc k) (?os[k := new]) = take k ?os @ [new]"
    using k by (simp add: take_Suc_conv_app_nth)
  have c6: "\<forall>a < length (bandits bs).
          wins (banditStats s' ! a) + losses (banditStats s' ! a) =
          int (length (filter (\<lambda>r. o_bandit r = int a) (take (Suc k) (overallStats s'))))"
  proof (intro allI impI)
    fix a assume a: "a < length (bandits bs)"
    with cnt have old: "wins (?bst ! a) + losses (?bst ! a) =
          int (length (filter (\<lambda>r. o_bandit r = int a) (take k ?os)))" by blast
    show "wins (banditStats s' ! a) + losses (banditStats s' ! a) =
          int (length (filter (\<lambda>r. o_bandit r = int a) (take (Suc k) (overallStats s'))))"
    proof (cases "a = sel")
      case True
      then show ?thesis using old sel new_arm by (simp add: s'_def bst'_def tk)
    next
      case False
      then show ?thesis using old new_arm by (simp add: s'_def bst'_def tk)
    qed
  qed
  have "loop_inv bs (Suc k) s'"
    unfolding loop_inv_def using c1 c2 c3 c4 c5 c6 by blast
  moreover have "length (overallStats s') = length ?os" by (simp add: s'_def)
  ultimately show ?thesis using that body' by blast
qed

subsection \<open>The whole loop\<close>

lemma upt_Suc_snoc: "[0..<Suc k] = [0..<k] @ [k]"
  by simp

lemma for_loop_inv:
  assumes "loop_inv bs 0 s0" "bandits bs \<noteq> []" "\<forall>p \<in> set (bandits bs). p \<le> max_prob bs"
  shows "k \<le> length (overallStats s0) \<Longrightarrow>
         \<exists>s. for_loop R bs [0..<k] s0 = Inr s \<and> loop_inv bs k s \<and>
             length (overallStats s) = length (overallStats s0)"
proof (induction k)
  case 0
  with assms(1) show ?case by simp
next
  case (Suc k)
  then obtain s where s: "for_loop R bs [0..<k] s0 = Inr s" "loop_inv bs k s"
    "length (overallStats s) = length (overallStats s0)" by auto
  from Suc.prems s(3) have "k < length (overallStats s)" by simp
  from loop_body_inv [OF s(2) this assms(2,3), of R]
  obtain s' where s': "loop_body R bs k s = Inr s'" "loop_inv bs (Suc k) s'"
    "length (overallStats s') = length (overallStats s)"
    by blast
  have "for_loop R bs [0..<Suc k] s0 = Inr s'"
    unfolding upt_Suc_snoc for_loop_append using s(1) s'(1) by simp
  with s'(2,3) s(3) show ?case by simp
qed

lemma Max_bound:
  assumes "max_prob bs = Max (set (bandits bs))"
  shows "\<forall>p \<in> set (bandits bs). p \<le> max_prob bs"
  using assms by simp

lemma rounds_inv:
  assumes "np_random_ok R" "2 \<le> bandit_count" "k \<le> nat tc"
  obtains bs g1 s where
    "Bandits_init R bandit_count g = Inr (bs, g1)"
    "length (bandits bs) = nat bandit_count"
    "\<forall>p \<in> set (bandits bs). p \<le> max_prob bs"
    "for_loop R bs [0..<k] (initial_state bandit_count tc g1) = Inr s"
    "loop_inv bs k s"
    "length (overallStats s) = nat tc"
proof -
  from assms(1,2) obtain bs g1 where b: "Bandits_init R bandit_count g = Inr (bs, g1)"
    "length (bandits bs) = nat bandit_count"
    "max_prob bs = Max (set (bandits bs))"
    using Bandits_init_ok [of R bandit_count g] by blast
  from b(2) assms(2) have ne: "bandits bs \<noteq> []" by auto
  from b(3) have mx: "\<forall>p \<in> set (bandits bs). p \<le> max_prob bs" by (rule Max_bound)
  have i0: "loop_inv bs 0 (initial_state bandit_count tc g1)"
    using b(2) by (rule loop_inv_initial)
  have "k \<le> length (overallStats (initial_state bandit_count tc g1))"
    using assms(3) by (simp add: initial_state_def)
  from for_loop_inv [OF i0 ne mx this, of R] obtain s where
    "for_loop R bs [0..<k] (initial_state bandit_count tc g1) = Inr s" "loop_inv bs k s"
    "length (overallStats s) = nat tc"
    by (auto simp: initial_state_def)
  with b(1,2) mx show ?thesis using that by blast
qed

lemma run_inv:
  assumes "np_random_ok R" "2 \<le> bandit_count"
  obtains bs s where
    "run R bandit_count trial_count g = Inr (bs, s)"
    "length (bandits bs) = nat bandit_count"
    "\<forall>p \<in> set (bandits bs). p \<le> max_prob bs"
    "loop_inv bs (nat (coerce_trial_count trial_count)) s"
    "length (overallStats s) = nat (coerce_trial_count trial_count)"
proof -
  let ?tc = "coerce_trial_count trial_count"
  have "nat ?tc \<le> nat ?tc" by simp
  with assms obtain bs g1 s where r:
    "Bandits_init R bandit_count g = Inr (bs, g1)"
    "length (bandits bs) = nat bandit_count"
    "\<forall>p \<in> set (bandits bs). p \<le> max_prob bs"
    "for_loop R bs [0..<nat ?tc] (initial_state bandit_count ?tc g1) = Inr s"
    "loop_inv bs (nat ?tc) s"
    "length (overallStats s) = nat ?tc"
    by (rule rounds_inv)
  from r(1,4) have "run R bandit_count trial_count g = Inr (bs, s)"
    by (simp add: run_def)
  with r show ?thesis using that by blast
qed

lemma loop_body_Inr:
  assumes "loop_body R bs i s = Inr s'"
  shows "\<exists>sel < length (banditStats s).
           argmax (fst (draw_bandit_distribution_vec R (banditStats s) (rng s))) = Inr sel \<and>
           i < length (overallStats s') \<and>
           o_bandit (overallStats s' ! i) = int sel \<and>
           banditStats s' =
             (banditStats s)[sel :=
                (if fst (select R bs (int sel)
                          (snd (draw_bandit_distribution_vec R (banditStats s) (rng s))))
                 then (banditStats s ! sel)\<lparr>wins := wins (banditStats s ! sel) + 1\<rparr>
                 else (banditStats s ! sel)\<lparr>losses := losses (banditStats s ! sel) + 1\<rparr>)]"
proof -
  obtain draws g1 where d: "draw_bandit_distribution_vec R (banditStats s) (rng s) = (draws, g1)"
    by (cases "draw_bandit_distribution_vec R (banditStats s) (rng s)")
  from assms obtain os0 where c: "copy_statistics i (overallStats s) = Inr os0"
    by (auto simp: loop_body_def split: sum.splits)
  from assms obtain sel where sel: "argmax draws = Inr sel"
    by (auto simp: loop_body_def d c split: sum.splits)
  obtain rewarded g2 where r: "select R bs (int sel) g1 = (rewarded, g2)"
    by (cases "select R bs (int sel) g1")
  from assms have i: "i < length os0"
    by (auto simp: loop_body_def d c sel split: if_splits)
  from assms have b: "sel < length (banditStats s)"
    using i by (auto simp: loop_body_def d c sel r Let_def split: if_splits)
  from assms obtain x where x: "regret bs (int sel) = Inr x"
    using i b by (auto simp: loop_body_def d c sel r Let_def split: sum.splits)
  have "i < length (overallStats s') \<and> o_bandit (overallStats s' ! i) = int sel \<and>
        banditStats s' =
             (banditStats s)[sel :=
                (if rewarded
                 then (banditStats s ! sel)\<lparr>wins := wins (banditStats s ! sel) + 1\<rparr>
                 else (banditStats s ! sel)\<lparr>losses := losses (banditStats s ! sel) + 1\<rparr>)]"
    using assms i b by (cases rewarded) (auto simp: loop_body_def d c sel r x Let_def)
  with b sel show ?thesis by (simp add: d r)
qed

subsection \<open>What sampling the posteriors returns\<close>

text \<open>
  C4. Sampling the posteriors returns one value per bandit, in the order of the bandits.
  The value of bandit \<open>a\<close> is the result of one call of the Beta sampler with the
  parameters \<open>wins + 1\<close> and \<open>losses + 1\<close> of that bandit, made on the generator as the
  draws for the bandits before \<open>a\<close> left it. With no data the parameters are 1 and 1.
\<close>

theorem sample_posteriors:
  "length (fst (draw_bandit_distribution_vec R stats g)) = length stats \<and>
   (\<forall>a < length stats.
      fst (draw_bandit_distribution_vec R stats g) ! a =
      fst (beta_draw R (of_int (wins (stats ! a) + 1)) (of_int (losses (stats ! a) + 1))
             (snd (draw_bandit_distribution_vec R (take a stats) g)))) \<and>
   draw_bandit_distribution R zero_bandit_stat g = beta_draw R 1 1 g"
  by (simp add: length_draw_vec draw_vec_nth draw_bandit_distribution_def zero_bandit_stat_def)

lemma draw_vec_counter_example:
  "draw_bandit_distribution_vec counter_random
     [\<lparr>wins = 2, losses = 0\<rparr>, \<lparr>wins = 0, losses = 1\<rparr>] 9 = ([1 / 2, 3 / 7], 11)"
  by code_simp

theorem sample_posteriors_witness:
  "fst (draw_bandit_distribution_vec counter_random
          [\<lparr>wins = 2, losses = 0\<rparr>, \<lparr>wins = 0, losses = 1\<rparr>] 9) = [1 / 2, 3 / 7] \<and>
   fst (draw_bandit_distribution_vec counter_random
          [\<lparr>wins = 2, losses = 0\<rparr>, \<lparr>wins = 0, losses = 1\<rparr>] 9) ! 0 =
     fst (beta_draw counter_random 3 1 9) \<and>
   fst (draw_bandit_distribution_vec counter_random
          [\<lparr>wins = 2, losses = 0\<rparr>, \<lparr>wins = 0, losses = 1\<rparr>] 9) ! 1 =
     fst (beta_draw counter_random 1 2 10) \<and>
   draw_bandit_distribution counter_random zero_bandit_stat 4 = beta_draw counter_random 1 1 4"
proof -
  let ?stats = "[\<lparr>wins = 2, losses = 0\<rparr>, \<lparr>wins = 0, losses = 1\<rparr>]"
  note t = sample_posteriors [of counter_random ?stats 9]
  from t have all: "\<forall>a < length ?stats.
      fst (draw_bandit_distribution_vec counter_random ?stats 9) ! a =
      fst (beta_draw counter_random (of_int (wins (?stats ! a) + 1)) (of_int (losses (?stats ! a) + 1))
             (snd (draw_bandit_distribution_vec counter_random (take a ?stats) 9)))"
    by blast
  have a0: "fst (draw_bandit_distribution_vec counter_random ?stats 9) ! 0 =
     fst (beta_draw counter_random 3 1 9)"
    using all [rule_format, of 0] by simp
  have s1: "snd (draw_bandit_distribution_vec counter_random [\<lparr>wins = 2, losses = 0\<rparr>] 9) = 10"
    by code_simp
  have a1: "fst (draw_bandit_distribution_vec counter_random ?stats 9) ! 1 =
     fst (beta_draw counter_random 1 2 10)"
    using all [rule_format, of 1] s1 by simp
  show ?thesis
    using a0 a1 draw_vec_counter_example sample_posteriors [of counter_random "[]" 4] by simp
qed

subsection \<open>The run\<close>

text \<open>
  C2. A run with at least two bandits ends without an exception. Its array of round
  records has as many entries as the (coerced) trial count says, and in the record of
  round \<open>i\<close> the cumulative wins and losses add up to \<open>i + 1\<close>.
\<close>

theorem round_records_count_rounds:
  assumes "np_random_ok R" "2 \<le> bandit_count"
  shows "\<exists>bs s. run R bandit_count trial_count g = Inr (bs, s) \<and>
           int (length (overallStats s)) = coerce_trial_count trial_count \<and>
           (1 \<le> trial_count \<longrightarrow> int (length (overallStats s)) = trial_count) \<and>
           (\<forall>i < length (overallStats s).
              o_wins (overallStats s ! i) + o_losses (overallStats s ! i) = int i + 1)"
proof -
  from assms obtain bs s where r: "run R bandit_count trial_count g = Inr (bs, s)"
    "loop_inv bs (nat (coerce_trial_count trial_count)) s"
    "length (overallStats s) = nat (coerce_trial_count trial_count)"
    using run_inv [of R bandit_count trial_count g] by blast
  have pos: "1 \<le> coerce_trial_count trial_count" by (simp add: coerce_trial_count_def)
  from r(3) pos have l: "int (length (overallStats s)) = coerce_trial_count trial_count" by simp
  then have l': "1 \<le> trial_count \<longrightarrow> int (length (overallStats s)) = trial_count"
    by (simp add: coerce_trial_count_def)
  from r(2,3) have "\<forall>i < length (overallStats s).
              o_wins (overallStats s ! i) + o_losses (overallStats s ! i) = int i + 1"
    by (simp add: loop_inv_def)
  with r(1) l l' show ?thesis by blast
qed

theorem round_records_count_rounds_witness:
  "np_random_ok counter_random \<and> (2 :: int) \<le> 2 \<and>
   (\<exists>bs s. run counter_random 2 3 1 = Inr (bs, s) \<and>
      length (overallStats s) = 3 \<and>
      o_wins (overallStats s ! 0) + o_losses (overallStats s ! 0) = 1 \<and>
      o_wins (overallStats s ! 1) + o_losses (overallStats s ! 1) = 2 \<and>
      o_wins (overallStats s ! 2) + o_losses (overallStats s ! 2) = 3)"
proof -
  from round_records_count_rounds [OF counter_random_ok, of 2 3 1]
  obtain bs s where r: "run counter_random 2 3 1 = Inr (bs, s)"
    "int (length (overallStats s)) = coerce_trial_count 3"
    "\<forall>i < length (overallStats s).
        o_wins (overallStats s ! i) + o_losses (overallStats s ! i) = int i + 1"
    by auto
  from r(2) have l: "length (overallStats s) = 3" by (simp add: coerce_trial_count_def)
  from r(3) l have "o_wins (overallStats s ! 0) + o_losses (overallStats s ! 0) = 1"
    "o_wins (overallStats s ! 1) + o_losses (overallStats s ! 1) = 2"
    "o_wins (overallStats s ! 2) + o_losses (overallStats s ! 2) = 3"
    by auto
  with r(1) l counter_random_ok show ?thesis by auto
qed

lemma run_coerced: "trial_count < 1 \<Longrightarrow> run R bandit_count trial_count g = run R bandit_count 1 g"
  by (simp add: run_def coerce_trial_count_def)

text \<open>
  C7. A trial count below 1 is replaced by 1: the run is the run with trial count 1,
  not an error. With a trial count of 1 (or below) and at least two bandits the run ends
  without an exception and returns exactly one round record.
\<close>

theorem trial_count_coerced:
  "(trial_count < 1 \<longrightarrow>
      coerce_trial_count trial_count = 1 \<and>
      run R bandit_count trial_count g = run R bandit_count 1 g) \<and>
   (np_random_ok R \<and> 2 \<le> bandit_count \<and> trial_count \<le> 1 \<longrightarrow>
      (\<exists>bs s. run R bandit_count trial_count g = Inr (bs, s) \<and>
             length (overallStats s) = 1))"
proof (intro conjI impI)
  assume "trial_count < 1"
  then show "coerce_trial_count trial_count = 1" by (simp add: coerce_trial_count_def)
next
  assume "trial_count < 1"
  then show "run R bandit_count trial_count g = run R bandit_count 1 g" by (rule run_coerced)
next
  assume a: "np_random_ok R \<and> 2 \<le> bandit_count \<and> trial_count \<le> 1"
  then have h: "np_random_ok R" "2 \<le> bandit_count" by simp_all
  from run_inv [OF h, of trial_count g]
  obtain bs s where r: "run R bandit_count trial_count g = Inr (bs, s)"
    "length (overallStats s) = nat (coerce_trial_count trial_count)"
    by blast
  from a have "coerce_trial_count trial_count = 1" by (simp add: coerce_trial_count_def)
  with r show "\<exists>bs s. run R bandit_count trial_count g = Inr (bs, s) \<and>
             length (overallStats s) = 1" by simp
qed

lemma run_counter_example_coerced:
  "run counter_random 2 0 5 =
     Inr (\<lparr>bandits = [1 / 7, 1 / 8], max_prob = 1 / 7\<rparr>,
          \<lparr>banditStats = [\<lparr>wins = 0, losses = 1\<rparr>, \<lparr>wins = 0, losses = 0\<rparr>],
           overallStats = [\<lparr>o_bandit = 0, o_wins = 0, o_losses = 1, o_regret = 0\<rparr>],
           rng = 10\<rparr>)"
  by code_simp

theorem trial_count_coerced_witness:
  "coerce_trial_count 0 = 1 \<and> coerce_trial_count (- 4) = 1 \<and>
   run counter_random 2 0 5 = run counter_random 2 1 5 \<and>
   np_random_ok counter_random \<and>
   (\<exists>bs s. run counter_random 2 0 5 = Inr (bs, s) \<and> length (overallStats s) = 1) \<and>
   (\<exists>bs s. run counter_random 2 1 5 = Inr (bs, s) \<and> length (overallStats s) = 1) \<and>
   run counter_random 2 0 5 =
     Inr (\<lparr>bandits = [1 / 7, 1 / 8], max_prob = 1 / 7\<rparr>,
          \<lparr>banditStats = [\<lparr>wins = 0, losses = 1\<rparr>, \<lparr>wins = 0, losses = 0\<rparr>],
           overallStats = [\<lparr>o_bandit = 0, o_wins = 0, o_losses = 1, o_regret = 0\<rparr>],
           rng = 10\<rparr>)"
  using trial_count_coerced [of 0 counter_random 2 5] trial_count_coerced [of "- 4" counter_random 2 5]
    trial_count_coerced [of 1 counter_random 2 5] counter_random_ok run_counter_example_coerced
  by simp

lemma regret_in_range:
  assumes "a < length (bandits bs)"
  shows "regret bs (int a) = Inr (max_prob bs - bandits bs ! a)"
  using assms by (simp add: regret_def)

lemma select_in_range:
  assumes "a < length (bandits bs)"
  shows "select R bs (int a) g =
           (fst (binomial_draw R 1 (bandits bs ! a) g) = 1,
            snd (binomial_draw R 1 (bandits bs ! a) g))"
  using assms by (simp add: select_def split: prod.splits)

text \<open>
  C8. In a run the cumulative regret never decreases from one round record to the next.
  The regret of every bandit within range is \<open>max_prob\<close> minus its probability, which
  is not negative, \<open>max_prob\<close> being the maximum of the probabilities.
\<close>

theorem cumulative_regret_nondecreasing:
  assumes "np_random_ok R" "2 \<le> bandit_count"
  shows "\<exists>bs s. run R bandit_count trial_count g = Inr (bs, s) \<and>
           (\<forall>i < length (overallStats s). 1 \<le> i \<longrightarrow>
              o_regret (overallStats s ! (i - 1)) \<le> o_regret (overallStats s ! i)) \<and>
           (\<forall>a < length (bandits bs).
              regret bs (int a) = Inr (max_prob bs - bandits bs ! a) \<and>
              0 \<le> max_prob bs - bandits bs ! a)"
proof -
  from run_inv [OF assms, of trial_count g]
  obtain bs s where r: "run R bandit_count trial_count g = Inr (bs, s)"
    "\<forall>p \<in> set (bandits bs). p \<le> max_prob bs"
    "loop_inv bs (nat (coerce_trial_count trial_count)) s"
    "length (overallStats s) = nat (coerce_trial_count trial_count)"
    by blast
  from r(3,4) have m: "\<forall>i < length (overallStats s). 1 \<le> i \<longrightarrow>
              o_regret (overallStats s ! (i - 1)) \<le> o_regret (overallStats s ! i)"
    by (simp add: loop_inv_def)
  have "\<forall>a < length (bandits bs).
              regret bs (int a) = Inr (max_prob bs - bandits bs ! a) \<and>
              0 \<le> max_prob bs - bandits bs ! a"
    using r(2) by (simp add: regret_in_range)
  with r(1) m show ?thesis by blast
qed

theorem cumulative_regret_nondecreasing_witness:
  "np_random_ok counter_random \<and> (2 :: int) \<le> 2 \<and>
   (\<exists>bs s. run counter_random 2 3 1 = Inr (bs, s) \<and>
      map o_regret (overallStats s) = [0, 1 / 12, 1 / 12] \<and>
      o_regret (overallStats s ! 0) \<le> o_regret (overallStats s ! 1) \<and>
      o_regret (overallStats s ! 1) \<le> o_regret (overallStats s ! 2) \<and>
      regret bs 0 = Inr 0 \<and> regret bs 1 = Inr (1 / 12))"
proof -
  from cumulative_regret_nondecreasing [OF counter_random_ok, of 2 3 1]
  obtain bs s where r: "run counter_random 2 3 1 = Inr (bs, s)"
    "\<forall>i < length (overallStats s). 1 \<le> i \<longrightarrow>
              o_regret (overallStats s ! (i - 1)) \<le> o_regret (overallStats s ! i)"
    "\<forall>a < length (bandits bs).
              regret bs (int a) = Inr (max_prob bs - bandits bs ! a) \<and>
              0 \<le> max_prob bs - bandits bs ! a"
    by auto
  from r(1) run_counter_example have
    bs: "bs = \<lparr>bandits = [1 / 3, 1 / 4], max_prob = 1 / 3\<rparr>"
    and os: "overallStats s =
             [\<lparr>o_bandit = 0, o_wins = 1, o_losses = 0, o_regret = 0\<rparr>,
              \<lparr>o_bandit = 1, o_wins = 1, o_losses = 1, o_regret = 1 / 12\<rparr>,
              \<lparr>o_bandit = 0, o_wins = 2, o_losses = 1, o_regret = 1 / 12\<rparr>]"
    by simp_all
  from r(2) [rule_format, of 1] r(2) [rule_format, of 2] os
  have m: "o_regret (overallStats s ! 0) \<le> o_regret (overallStats s ! 1)"
    "o_regret (overallStats s ! 1) \<le> o_regret (overallStats s ! 2)"
    by simp_all
  from r(3) [rule_format, of 0] r(3) [rule_format, of 1] bs
  have g: "regret bs 0 = Inr 0" "regret bs 1 = Inr (1 / 12)"
    by simp_all
  from r(1) os m g counter_random_ok show ?thesis by simp
qed

text \<open>
  C10. A run with at least two bandits raises no exception, so every indexing of
  \<open>banditStats\<close>, \<open>overallStats\<close> and the probabilities in the loop is within bounds.
  The bandit selected in every round lies in \<open>[0, K)\<close>, where \<open>K\<close> is the number of
  bandits, of probabilities and of counters alike; for such a number \<open>regret\<close> and
  \<open>select\<close> take their in-range branch.
\<close>

theorem selected_bandit_in_range:
  assumes "np_random_ok R" "2 \<le> bandit_count"
  shows "\<exists>bs s. run R bandit_count trial_count g = Inr (bs, s) \<and>
           int (length (bandits bs)) = bandit_count \<and>
           int (length (banditStats s)) = bandit_count \<and>
           (\<forall>i < length (overallStats s).
              0 \<le> o_bandit (overallStats s ! i) \<and>
              o_bandit (overallStats s ! i) < bandit_count \<and>
              regret bs (o_bandit (overallStats s ! i)) =
                Inr (max_prob bs - bandits bs ! nat (o_bandit (overallStats s ! i))) \<and>
              (\<forall>g'. select R bs (o_bandit (overallStats s ! i)) g' =
                 (fst (binomial_draw R 1 (bandits bs ! nat (o_bandit (overallStats s ! i))) g') = 1,
                  snd (binomial_draw R 1 (bandits bs ! nat (o_bandit (overallStats s ! i))) g'))))"
proof -
  from run_inv [OF assms, of trial_count g]
  obtain bs s where r: "run R bandit_count trial_count g = Inr (bs, s)"
    "length (bandits bs) = nat bandit_count"
    "loop_inv bs (nat (coerce_trial_count trial_count)) s"
    "length (overallStats s) = nat (coerce_trial_count trial_count)"
    by blast
  from r(2) assms(2) have l1: "int (length (bandits bs)) = bandit_count" by simp
  from r(3) l1 have l2: "int (length (banditStats s)) = bandit_count" by (simp add: loop_inv_def)
  have "\<forall>i < length (overallStats s).
              0 \<le> o_bandit (overallStats s ! i) \<and>
              o_bandit (overallStats s ! i) < bandit_count \<and>
              regret bs (o_bandit (overallStats s ! i)) =
                Inr (max_prob bs - bandits bs ! nat (o_bandit (overallStats s ! i))) \<and>
              (\<forall>g'. select R bs (o_bandit (overallStats s ! i)) g' =
                 (fst (binomial_draw R 1 (bandits bs ! nat (o_bandit (overallStats s ! i))) g') = 1,
                  snd (binomial_draw R 1 (bandits bs ! nat (o_bandit (overallStats s ! i))) g')))"
  proof (intro allI impI)
    fix i assume "i < length (overallStats s)"
    with r(3,4) have b: "0 \<le> o_bandit (overallStats s ! i)"
      "o_bandit (overallStats s ! i) < int (length (bandits bs))"
      by (simp_all add: loop_inv_def)
    define a where "a = nat (o_bandit (overallStats s ! i))"
    from b have a: "a < length (bandits bs)" "o_bandit (overallStats s ! i) = int a"
      by (simp_all add: a_def)
    show "0 \<le> o_bandit (overallStats s ! i) \<and>
              o_bandit (overallStats s ! i) < bandit_count \<and>
              regret bs (o_bandit (overallStats s ! i)) =
                Inr (max_prob bs - bandits bs ! nat (o_bandit (overallStats s ! i))) \<and>
              (\<forall>g'. select R bs (o_bandit (overallStats s ! i)) g' =
                 (fst (binomial_draw R 1 (bandits bs ! nat (o_bandit (overallStats s ! i))) g') = 1,
                  snd (binomial_draw R 1 (bandits bs ! nat (o_bandit (overallStats s ! i))) g')))"
      using b l1 regret_in_range [OF a(1)] select_in_range [OF a(1), of R]
      by (simp add: a(2))
  qed
  with r(1) l1 l2 show ?thesis by blast
qed

theorem selected_bandit_in_range_witness:
  "np_random_ok counter_random \<and> (2 :: int) \<le> 2 \<and>
   (\<exists>bs s. run counter_random 2 3 1 = Inr (bs, s) \<and>
      length (bandits bs) = 2 \<and> length (banditStats s) = 2 \<and>
      map o_bandit (overallStats s) = [0, 1, 0] \<and>
      regret bs (o_bandit (overallStats s ! 1)) = Inr (1 / 12) \<and>
      select counter_random bs (o_bandit (overallStats s ! 1)) 7 = (False, 8))"
proof -
  from selected_bandit_in_range [OF counter_random_ok, of 2 3 1]
  obtain bs s where r: "run counter_random 2 3 1 = Inr (bs, s)"
    "int (length (bandits bs)) = 2" "int (length (banditStats s)) = 2"
    "\<forall>i < length (overallStats s).
              0 \<le> o_bandit (overallStats s ! i) \<and>
              o_bandit (overallStats s ! i) < 2 \<and>
              regret bs (o_bandit (overallStats s ! i)) =
                Inr (max_prob bs - bandits bs ! nat (o_bandit (overallStats s ! i))) \<and>
              (\<forall>g'. select counter_random bs (o_bandit (overallStats s ! i)) g' =
                 (fst (binomial_draw counter_random 1 (bandits bs ! nat (o_bandit (overallStats s ! i))) g') = 1,
                  snd (binomial_draw counter_random 1 (bandits bs ! nat (o_bandit (overallStats s ! i))) g')))"
    by auto
  from r(1) run_counter_example have
    bs: "bs = \<lparr>bandits = [1 / 3, 1 / 4], max_prob = 1 / 3\<rparr>"
    and os: "overallStats s =
             [\<lparr>o_bandit = 0, o_wins = 1, o_losses = 0, o_regret = 0\<rparr>,
              \<lparr>o_bandit = 1, o_wins = 1, o_losses = 1, o_regret = 1 / 12\<rparr>,
              \<lparr>o_bandit = 0, o_wins = 2, o_losses = 1, o_regret = 1 / 12\<rparr>]"
    by simp_all
  from r(4) [rule_format, of 1] os bs
  have g: "regret bs (o_bandit (overallStats s ! 1)) = Inr (1 / 12)"
    "select counter_random bs (o_bandit (overallStats s ! 1)) 7 = (False, 8)"
    by (simp_all add: counter_random_def)
  from r(1,2,3) os g counter_random_ok show ?thesis by simp
qed

text \<open>
  C9. After any number \<open>k\<close> of rounds of a run, the wins and losses of every bandit add
  up to the number of the first \<open>k\<close> round records that name this bandit as the selected
  one. A pass through the loop body changes the counters of the selected bandit only: it
  adds one to its wins when \<open>select\<close> reported a reward and one to its losses otherwise.
  No counter is ever reset or decreased.
\<close>

theorem counters_count_selections:
  assumes "np_random_ok R" "2 \<le> bandit_count" "k \<le> nat (coerce_trial_count trial_count)"
  shows "\<exists>bs g1 s.
           Bandits_init R bandit_count g = Inr (bs, g1) \<and>
           for_loop R bs [0..<k]
             (initial_state bandit_count (coerce_trial_count trial_count) g1) = Inr s \<and>
           (k = nat (coerce_trial_count trial_count) \<longrightarrow>
              run R bandit_count trial_count g = Inr (bs, s)) \<and>
           int (length (banditStats s)) = bandit_count \<and>
           (\<forall>a < length (banditStats s).
              wins (banditStats s ! a) + losses (banditStats s ! a) =
              int (length (filter (\<lambda>r. o_bandit r = int a) (take k (overallStats s))))) \<and>
           (\<forall>i st st'. loop_body R bs i st = Inr st' \<longrightarrow>
              (\<exists>sel < length (banditStats st).
                 argmax (fst (draw_bandit_distribution_vec R (banditStats st) (rng st))) = Inr sel \<and>
                 i < length (overallStats st') \<and>
                 o_bandit (overallStats st' ! i) = int sel \<and>
                 banditStats st' =
                   (banditStats st)[sel :=
                      (if fst (select R bs (int sel)
                                (snd (draw_bandit_distribution_vec R (banditStats st) (rng st))))
                       then (banditStats st ! sel)\<lparr>wins := wins (banditStats st ! sel) + 1\<rparr>
                       else (banditStats st ! sel)\<lparr>losses := losses (banditStats st ! sel) + 1\<rparr>)]))"
proof -
  let ?tc = "coerce_trial_count trial_count"
  obtain bs g1 s where r:
    "Bandits_init R bandit_count g = Inr (bs, g1)"
    "length (bandits bs) = nat bandit_count"
    "for_loop R bs [0..<k] (initial_state bandit_count ?tc g1) = Inr s"
    "loop_inv bs k s"
    by (rule rounds_inv [OF assms, of g], rule that, assumption+)
  have run: "k = nat ?tc \<longrightarrow> run R bandit_count trial_count g = Inr (bs, s)"
  proof
    assume "k = nat ?tc"
    with r(3) have "for_loop R bs [0..<nat ?tc] (initial_state bandit_count ?tc g1) = Inr s"
      by simp
    with r(1) show "run R bandit_count trial_count g = Inr (bs, s)"
      by (simp add: run_def Let_def)
  qed
  from r(2,4) assms(2) have len: "int (length (banditStats s)) = bandit_count"
    by (simp add: loop_inv_def)
  from r(4) have cnt: "\<forall>a < length (banditStats s).
              wins (banditStats s ! a) + losses (banditStats s ! a) =
              int (length (filter (\<lambda>r. o_bandit r = int a) (take k (overallStats s))))"
    by (simp add: loop_inv_def)
  have step: "\<forall>i st st'. loop_body R bs i st = Inr st' \<longrightarrow>
              (\<exists>sel < length (banditStats st).
                 argmax (fst (draw_bandit_distribution_vec R (banditStats st) (rng st))) = Inr sel \<and>
                 i < length (overallStats st') \<and>
                 o_bandit (overallStats st' ! i) = int sel \<and>
                 banditStats st' =
                   (banditStats st)[sel :=
                      (if fst (select R bs (int sel)
                                (snd (draw_bandit_distribution_vec R (banditStats st) (rng st))))
                       then (banditStats st ! sel)\<lparr>wins := wins (banditStats st ! sel) + 1\<rparr>
                       else (banditStats st ! sel)\<lparr>losses := losses (banditStats st ! sel) + 1\<rparr>)])"
    by (intro allI impI) (rule loop_body_Inr)
  show ?thesis
    apply (intro exI conjI)
         apply (rule r(1))
        apply (rule r(3))
       apply (rule run)
      apply (rule len)
     apply (rule cnt)
    apply (rule step)
    done
qed

lemma loop_body_counter_example:
  "loop_body counter_random \<lparr>bandits = [1 / 3, 1 / 4], max_prob = 1 / 3\<rparr> 1
     \<lparr>banditStats = [\<lparr>wins = 1, losses = 0\<rparr>, \<lparr>wins = 0, losses = 0\<rparr>],
      overallStats = [\<lparr>o_bandit = 0, o_wins = 1, o_losses = 0, o_regret = 0\<rparr>,
                      zero_overall_stat, zero_overall_stat],
      rng = 6\<rparr> =
   Inr \<lparr>banditStats = [\<lparr>wins = 1, losses = 0\<rparr>, \<lparr>wins = 0, losses = 1\<rparr>],
        overallStats = [\<lparr>o_bandit = 0, o_wins = 1, o_losses = 0, o_regret = 0\<rparr>,
                        \<lparr>o_bandit = 1, o_wins = 1, o_losses = 1, o_regret = 1 / 12\<rparr>,
                        zero_overall_stat],
        rng = 9\<rparr>"
  by code_simp

theorem counters_count_selections_witness:
  "np_random_ok counter_random \<and> (2 :: int) \<le> 2 \<and> 3 \<le> nat (coerce_trial_count 3) \<and>
   (\<exists>bs s. run counter_random 2 3 1 = Inr (bs, s) \<and>
      banditStats s = [\<lparr>wins = 2, losses = 0\<rparr>, \<lparr>wins = 0, losses = 1\<rparr>] \<and>
      map o_bandit (overallStats s) = [0, 1, 0] \<and>
      wins (banditStats s ! 0) + losses (banditStats s ! 0) =
        int (length (filter (\<lambda>r. o_bandit r = 0) (take 3 (overallStats s)))) \<and>
      wins (banditStats s ! 1) + losses (banditStats s ! 1) =
        int (length (filter (\<lambda>r. o_bandit r = 1) (take 3 (overallStats s))))) \<and>
   loop_body counter_random \<lparr>bandits = [1 / 3, 1 / 4], max_prob = 1 / 3\<rparr> 1
     \<lparr>banditStats = [\<lparr>wins = 1, losses = 0\<rparr>, \<lparr>wins = 0, losses = 0\<rparr>],
      overallStats = [\<lparr>o_bandit = 0, o_wins = 1, o_losses = 0, o_regret = 0\<rparr>,
                      zero_overall_stat, zero_overall_stat],
      rng = 6 :: nat\<rparr> =
   Inr \<lparr>banditStats = [\<lparr>wins = 1, losses = 0\<rparr>, \<lparr>wins = 0, losses = 1\<rparr>],
        overallStats = [\<lparr>o_bandit = 0, o_wins = 1, o_losses = 0, o_regret = 0\<rparr>,
                        \<lparr>o_bandit = 1, o_wins = 1, o_losses = 1, o_regret = 1 / 12\<rparr>,
                        zero_overall_stat],
        rng = 9 :: nat\<rparr> \<and>
   (\<exists>sel < length (banditStats (\<lparr>banditStats = [\<lparr>wins = 1, losses = 0\<rparr>, \<lparr>wins = 0, losses = 0\<rparr>],
      overallStats = [\<lparr>o_bandit = 0, o_wins = 1, o_losses = 0, o_regret = 0\<rparr>,
                      zero_overall_stat, zero_overall_stat],
      rng = 6 :: nat\<rparr>)).
                 argmax (fst (draw_bandit_distribution_vec counter_random (banditStats (\<lparr>banditStats = [\<lparr>wins = 1, losses = 0\<rparr>, \<lparr>wins = 0, losses = 0\<rparr>],
      overallStats = [\<lparr>o_bandit = 0, o_wins = 1, o_losses = 0, o_regret = 0\<rparr>,
                      zero_overall_stat, zero_overall_stat],
      rng = 6 :: nat\<rparr>)) (rng (\<lparr>banditStats = [\<lparr>wins = 1, losses = 0\<rparr>, \<lparr>wins = 0, losses = 0\<rparr>],
      overallStats = [\<lparr>o_bandit = 0, o_wins = 1, o_losses = 0, o_regret = 0\<rparr>,
                      zero_overall_stat, zero_overall_stat],
      rng = 6 :: nat\<rparr>)))) = Inr sel \<and>
                 1 < length (overallStats (\<lparr>banditStats = [\<lparr>wins = 1, losses = 0\<rparr>, \<lparr>wins = 0, losses = 1\<rparr>],
        overallStats = [\<lparr>o_bandit = 0, o_wins = 1, o_losses = 0, o_regret = 0\<rparr>,
                        \<lparr>o_bandit = 1, o_wins = 1, o_losses = 1, o_regret = 1 / 12\<rparr>,
                        zero_overall_stat],
        rng = 9 :: nat\<rparr>)) \<and>
                 o_bandit (overallStats (\<lparr>banditStats = [\<lparr>wins = 1, losses = 0\<rparr>, \<lparr>wins = 0, losses = 1\<rparr>],
        overallStats = [\<lparr>o_bandit = 0, o_wins = 1, o_losses = 0, o_regret = 0\<rparr>,
                        \<lparr>o_bandit = 1, o_wins = 1, o_losses = 1, o_regret = 1 / 12\<rparr>,
                        zero_overall_stat],
        rng = 9 :: nat\<rparr>) ! 1) = int sel \<and>
                 banditStats (\<lparr>banditStats = [\<lparr>wins = 1, losses = 0\<rparr>, \<lparr>wins = 0, losses = 1\<rparr>],
        overallStats = [\<lparr>o_bandit = 0, o_wins = 1, o_losses = 0, o_regret = 0\<rparr>,
                        \<lparr>o_bandit = 1, o_wins = 1, o_losses = 1, o_regret = 1 / 12\<rparr>,
                        zero_overall_stat],
        rng = 9 :: nat\<rparr>) =
                   (banditStats (\<lparr>banditStats = [\<lparr>wins = 1, losses = 0\<rparr>, \<lparr>wins = 0, losses = 0\<rparr>],
      overallStats = [\<lparr>o_bandit = 0, o_wins = 1, o_losses = 0, o_regret = 0\<rparr>,
                      zero_overall_stat, zero_overall_stat],
      rng = 6 :: nat\<rparr>))[sel :=
                      (if fst (select counter_random \<lparr>bandits = [1 / 3, 1 / 4], max_prob = 1 / 3\<rparr> (int sel)
                                (snd (draw_bandit_distribution_vec counter_random (banditStats (\<lparr>banditStats = [\<lparr>wins = 1, losses = 0\<rparr>, \<lparr>wins = 0, losses = 0\<rparr>],
      overallStats = [\<lparr>o_bandit = 0, o_wins = 1, o_losses = 0, o_regret = 0\<rparr>,
                      zero_overall_stat, zero_overall_stat],
      rng = 6 :: nat\<rparr>)) (rng (\<lparr>banditStats = [\<lparr>wins = 1, losses = 0\<rparr>, \<lparr>wins = 0, losses = 0\<rparr>],
      overallStats = [\<lparr>o_bandit = 0, o_wins = 1, o_losses = 0, o_regret = 0\<rparr>,
                      zero_overall_stat, zero_overall_stat],
      rng = 6 :: nat\<rparr>)))))
                       then (banditStats (\<lparr>banditStats = [\<lparr>wins = 1, losses = 0\<rparr>, \<lparr>wins = 0, losses = 0\<rparr>],
      overallStats = [\<lparr>o_bandit = 0, o_wins = 1, o_losses = 0, o_regret = 0\<rparr>,
                      zero_overall_stat, zero_overall_stat],
      rng = 6 :: nat\<rparr>) ! sel)\<lparr>wins := wins (banditStats (\<lparr>banditStats = [\<lparr>wins = 1, losses = 0\<rparr>, \<lparr>wins = 0, losses = 0\<rparr>],
      overallStats = [\<lparr>o_bandit = 0, o_wins = 1, o_losses = 0, o_regret = 0\<rparr>,
                      zero_overall_stat, zero_overall_stat],
      rng = 6 :: nat\<rparr>) ! sel) + 1\<rparr>
                       else (banditStats (\<lparr>banditStats = [\<lparr>wins = 1, losses = 0\<rparr>, \<lparr>wins = 0, losses = 0\<rparr>],
      overallStats = [\<lparr>o_bandit = 0, o_wins = 1, o_losses = 0, o_regret = 0\<rparr>,
                      zero_overall_stat, zero_overall_stat],
      rng = 6 :: nat\<rparr>) ! sel)\<lparr>losses := losses (banditStats (\<lparr>banditStats = [\<lparr>wins = 1, losses = 0\<rparr>, \<lparr>wins = 0, losses = 0\<rparr>],
      overallStats = [\<lparr>o_bandit = 0, o_wins = 1, o_losses = 0, o_regret = 0\<rparr>,
                      zero_overall_stat, zero_overall_stat],
      rng = 6 :: nat\<rparr>) ! sel) + 1\<rparr>)])"
proof -
  have k: "3 \<le> nat (coerce_trial_count 3)" by (simp add: coerce_trial_count_def)
  let ?st = "\<lparr>banditStats = [\<lparr>wins = 1, losses = 0\<rparr>, \<lparr>wins = 0, losses = 0\<rparr>],
      overallStats = [\<lparr>o_bandit = 0, o_wins = 1, o_losses = 0, o_regret = 0\<rparr>,
                      zero_overall_stat, zero_overall_stat],
      rng = 6 :: nat\<rparr>"
  let ?st' = "\<lparr>banditStats = [\<lparr>wins = 1, losses = 0\<rparr>, \<lparr>wins = 0, losses = 1\<rparr>],
        overallStats = [\<lparr>o_bandit = 0, o_wins = 1, o_losses = 0, o_regret = 0\<rparr>,
                        \<lparr>o_bandit = 1, o_wins = 1, o_losses = 1, o_regret = 1 / 12\<rparr>,
                        zero_overall_stat],
        rng = 9 :: nat\<rparr>"
  have two: "(2 :: int) \<le> 2" by simp
  from counters_count_selections [of counter_random 2 3 3 1, OF counter_random_ok two k]
  obtain bs g1 s where r0:
    "Bandits_init counter_random 2 1 = Inr (bs, g1) \<and>
     for_loop counter_random bs [0..<3] (initial_state 2 (coerce_trial_count 3) g1) = Inr s \<and>
     (3 = nat (coerce_trial_count 3) \<longrightarrow> run counter_random 2 3 1 = Inr (bs, s)) \<and>
     int (length (banditStats s)) = 2 \<and>
     (\<forall>a < length (banditStats s).
              wins (banditStats s ! a) + losses (banditStats s ! a) =
              int (length (filter (\<lambda>r. o_bandit r = int a) (take 3 (overallStats s))))) \<and>
     (\<forall>i st st'. loop_body counter_random bs i st = Inr st' \<longrightarrow>
              (\<exists>sel < length (banditStats st).
                 argmax (fst (draw_bandit_distribution_vec counter_random (banditStats st) (rng st))) = Inr sel \<and>
                 i < length (overallStats st') \<and>
                 o_bandit (overallStats st' ! i) = int sel \<and>
                 banditStats st' =
                   (banditStats st)[sel :=
                      (if fst (select counter_random bs (int sel)
                                (snd (draw_bandit_distribution_vec counter_random (banditStats st) (rng st))))
                       then (banditStats st ! sel)\<lparr>wins := wins (banditStats st ! sel) + 1\<rparr>
                       else (banditStats st ! sel)\<lparr>losses := losses (banditStats st ! sel) + 1\<rparr>)]))"
    by (elim exE) (rule that)
  note r = r0 [THEN conjunct1]
    r0 [THEN conjunct2, THEN conjunct2, THEN conjunct1]
    r0 [THEN conjunct2, THEN conjunct2, THEN conjunct2, THEN conjunct2, THEN conjunct1]
    r0 [THEN conjunct2, THEN conjunct2, THEN conjunct2, THEN conjunct2, THEN conjunct2]
  from r(2) have run: "run counter_random 2 3 1 = Inr (bs, s)"
    by (simp add: coerce_trial_count_def)
  from run run_counter_example have
    bs: "bs = \<lparr>bandits = [1 / 3, 1 / 4], max_prob = 1 / 3\<rparr>"
    and bst: "banditStats s = [\<lparr>wins = 2, losses = 0\<rparr>, \<lparr>wins = 0, losses = 1\<rparr>]"
    and os: "overallStats s =
             [\<lparr>o_bandit = 0, o_wins = 1, o_losses = 0, o_regret = 0\<rparr>,
              \<lparr>o_bandit = 1, o_wins = 1, o_losses = 1, o_regret = 1 / 12\<rparr>,
              \<lparr>o_bandit = 0, o_wins = 2, o_losses = 1, o_regret = 1 / 12\<rparr>]"
    by simp_all
  from r(3) [rule_format, of 0] r(3) [rule_format, of 1] bst
  have c: "wins (banditStats s ! 0) + losses (banditStats s ! 0) =
        int (length (filter (\<lambda>r. o_bandit r = 0) (take 3 (overallStats s))))"
    "wins (banditStats s ! 1) + losses (banditStats s ! 1) =
        int (length (filter (\<lambda>r. o_bandit r = 1) (take 3 (overallStats s))))"
    by simp_all
  from run bst os c have A: "\<exists>bs s. run counter_random 2 3 1 = Inr (bs, s) \<and>
      banditStats s = [\<lparr>wins = 2, losses = 0\<rparr>, \<lparr>wins = 0, losses = 1\<rparr>] \<and>
      map o_bandit (overallStats s) = [0, 1, 0] \<and>
      wins (banditStats s ! 0) + losses (banditStats s ! 0) =
        int (length (filter (\<lambda>r. o_bandit r = 0) (take 3 (overallStats s)))) \<and>
      wins (banditStats s ! 1) + losses (banditStats s ! 1) =
        int (length (filter (\<lambda>r. o_bandit r = 1) (take 3 (overallStats s))))"
    by simp
  note B = r(4) [unfolded bs, rule_format, OF loop_body_counter_example]
  show ?thesis
    by (rule conjI [OF counter_random_ok conjI [OF two conjI [OF k conjI [OF A
          conjI [OF loop_body_counter_example B]]]]])
qed

end
